theory Spec2Isabelle
  imports Main
begin

section \<open>Strings as Python and Django treat them\<close>

text \<open>
  Titles, slugs and form input are Python \<open>str\<close> values. The model covers ASCII text:
  a \<open>string\<close> is a list of bytes, and a byte above 127 is treated as a character that
  \<open>encode("ascii", "ignore")\<close> drops (the model does not decompose accented letters
  first, as NFKD normalisation would).
\<close>

definition is_ascii :: "char \<Rightarrow> bool" where
  "is_ascii c = ((of_char c :: nat) < 128)"

text \<open>\<open>str.isspace\<close> on the ASCII range, which is also what \<open>\s\<close> matches.\<close>

definition is_space :: "char \<Rightarrow> bool" where
  "is_space c = (let n = (of_char c :: nat) in (9 \<le> n \<and> n \<le> 13) \<or> (28 \<le> n \<and> n \<le> 32))"

text \<open>\<open>\w\<close> on the ASCII range: letters, digits and the underscore.\<close>

definition is_word :: "char \<Rightarrow> bool" where
  "is_word c = (let n = (of_char c :: nat) in
     (97 \<le> n \<and> n \<le> 122) \<or> (65 \<le> n \<and> n \<le> 90) \<or> (48 \<le> n \<and> n \<le> 57) \<or> n = 95)"

definition lower_char :: "char \<Rightarrow> char" where
  "lower_char c = (let n = (of_char c :: nat) in
     if 65 \<le> n \<and> n \<le> 90 then char_of (n + 32) else c)"

definition lower :: "string \<Rightarrow> string" where
  "lower s = map lower_char s"

text \<open>\<open>s.strip(chars)\<close>, with the set of stripped characters as a predicate.\<close>

definition strip_chars :: "(char \<Rightarrow> bool) \<Rightarrow> string \<Rightarrow> string" where
  "strip_chars P s = rev (dropWhile P (rev (dropWhile P s)))"

definition strip :: "string \<Rightarrow> string" where
  "strip s = strip_chars is_space s"

text \<open>\<open>str(n)\<close> for a non-negative integer: its decimal digits, most significant first.\<close>

definition digit_char :: "nat \<Rightarrow> char" where
  "digit_char d = char_of (48 + d)"

function str_nat :: "nat \<Rightarrow> string" where
  "str_nat n = (if n < 10 then [digit_char n] else str_nat (n div 10) @ [digit_char (n mod 10)])"
  by pat_completeness auto
termination
  by (relation "measure (\<lambda>n. n)") auto

declare str_nat.simps [simp del]

subsection \<open>\<open>django.utils.text.slugify\<close>\<close>

text \<open>
  \<^verbatim>\<open>
  value = unicodedata.normalize("NFKD", value).encode("ascii", "ignore").decode("ascii")
  value = re.sub(r"[^\w\s-]", "", value.lower())
  return re.sub(r"[-\s]+", "-", value).strip("-_")
  \<close>
  The second substitution replaces every maximal run of hyphens and whitespace by one hyphen.
\<close>

definition is_sep :: "char \<Rightarrow> bool" where
  "is_sep c = (c = CHR ''-'' \<or> is_space c)"

function collapse_seps :: "string \<Rightarrow> string" where
  "collapse_seps [] = []"
| "collapse_seps (c # cs) =
     (if is_sep c then CHR ''-'' # collapse_seps (dropWhile is_sep cs)
      else c # collapse_seps cs)"
  by pat_completeness auto
termination
  by (relation "measure length") (auto simp: less_Suc_eq_le length_dropWhile_le)

definition slugify :: "string \<Rightarrow> string" where
  "slugify title =
     (let value = filter is_ascii title;
          value = filter (\<lambda>c. is_word c \<or> is_space c \<or> c = CHR ''-'') (lower value)
      in strip_chars (\<lambda>c. c = CHR ''-'' \<or> c = CHR ''_'') (collapse_seps value))"

section \<open>The content store\<close>

text \<open>
  The tables of \<open>models.py\<close>, each a list of rows in insertion order. A foreign key to a
  user or a category that a view dereferences (\<open>post.author\<close>, \<open>post.category\<close>) is
  held as the related row itself; the others are held as the primary key. Timestamps are
  integers (a later instant is a larger number). The store enforces the unique constraint on
  \<open>ForumQuestion.slug\<close>; the width of a column is not modelled, since whether a value
  longer than \<open>max_length\<close> is rejected by \<open>save\<close> depends on the database backend.
\<close>

record user =
  u_id :: nat
  u_username :: string
  u_first_name :: string
  u_last_name :: string

record category =
  c_id :: nat
  c_name :: string
  c_slug :: string

record blog_post =
  bp_id :: nat
  bp_title :: string
  bp_content :: string
  bp_author :: user
  bp_category :: "category option"
  bp_featured_image :: "string option"
  bp_slug :: string
  bp_is_published :: bool
  bp_created_at :: int

record notification =
  n_id :: nat
  n_user :: nat
  n_title :: string
  n_message :: string
  n_notification_type :: string
  n_is_read :: bool
  n_related_url :: "string option"
  n_created_at :: int

record forum_question =
  fq_id :: "nat option"
  fq_title :: string
  fq_content :: string
  fq_author :: nat
  fq_category :: "nat option"
  fq_slug :: string
  fq_is_answered :: bool
  fq_views :: int
  fq_created_at :: int
  fq_updated_at :: int

record forum_answer =
  fa_id :: "nat option"
  fa_question :: "nat option"
  fa_content :: string
  fa_author :: nat
  fa_is_accepted :: bool
  fa_created_at :: int
  fa_updated_at :: int

record store =
  blog_posts :: "blog_post list"
  notifications :: "notification list"
  forum_questions :: "forum_question list"
  forum_answers :: "forum_answer list"

datatype error =
  Http404 | MultipleObjectsReturned | IntegrityError | DatabaseError | ValueError
  | NoReverseMatch

section \<open>\<open>ForumQuestion.save\<close>\<close>

text \<open>\<open>ForumQuestion.objects.filter(slug=slug).exists()\<close>\<close>

definition slug_exists :: "forum_question list \<Rightarrow> string \<Rightarrow> bool" where
  "slug_exists qs slug = (slug \<in> set (map fq_slug qs))"

text \<open>The suffixed form \<open>f"{base_slug}-{counter}"\<close>.\<close>

definition candidate :: "string \<Rightarrow> nat \<Rightarrow> string" where
  "candidate base_slug counter = base_slug @ ''-'' @ str_nat counter"

text \<open>
  The loop of \<open>save\<close>, with its two variables \<open>slug\<close> and \<open>counter\<close>:
  \<^verbatim>\<open>
  while ForumQuestion.objects.filter(slug=slug).exists():
      slug = f"{base_slug}-{counter}"
      counter += 1
  \<close>
  The result is \<open>None\<close> where the loop does not return.
\<close>

partial_function (option) probe_slug ::
  "forum_question list \<Rightarrow> string \<Rightarrow> string \<Rightarrow> nat \<Rightarrow> string option" where
  "probe_slug qs base_slug slug counter =
     (if slug_exists qs slug
      then probe_slug qs base_slug (candidate base_slug counter) (counter + 1)
      else Some slug)"

declare probe_slug.simps [code]

text \<open>The first half of \<open>save\<close>: the slug is computed only when it is empty.\<close>

definition assign_slug :: "forum_question list \<Rightarrow> forum_question \<Rightarrow> forum_question option" where
  "assign_slug qs q =
     (if fq_slug q = []
      then (let base_slug = slugify (fq_title q)
            in case probe_slug qs base_slug base_slug 1 of
                 None \<Rightarrow> None
               | Some slug \<Rightarrow> Some (q\<lparr>fq_slug := slug\<rparr>))
      else Some q)"

text \<open>
  \<open>Model.save\<close> of the framework, for the question table. With \<open>update_fields\<close> only the
  named columns of the row with the instance's primary key are written. Without it, an
  instance whose primary key names a row overwrites that row, and any other instance is
  inserted, under a new primary key when it has none. A write that would leave two rows with
  one slug is rejected.
\<close>

datatype field = Views | Is_answered

definition write_fields :: "field list \<Rightarrow> forum_question \<Rightarrow> forum_question \<Rightarrow> forum_question" where
  "write_fields fs q row =
     (let row = (if Views \<in> set fs then row\<lparr>fq_views := fq_views q\<rparr> else row)
      in if Is_answered \<in> set fs then row\<lparr>fq_is_answered := fq_is_answered q\<rparr> else row)"

definition next_id :: "nat option list \<Rightarrow> nat" where
  "next_id pks = Suc (fold max (map (\<lambda>pk. case pk of None \<Rightarrow> 0 | Some i \<Rightarrow> i) pks) 0)"

definition model_save ::
  "forum_question \<Rightarrow> field list option \<Rightarrow> int \<Rightarrow> store \<Rightarrow> error + forum_question \<times> store" where
  "model_save q update_fields now s =
     (let qs = forum_questions s in
      case update_fields of
        Some fs \<Rightarrow>
          (if fq_id q = None then Inl ValueError
           else if fq_id q \<notin> set (map fq_id qs) then Inl DatabaseError
           else Inr (q, s\<lparr>forum_questions :=
                   map (\<lambda>row. if fq_id row = fq_id q then write_fields fs q row else row) qs\<rparr>))
      | None \<Rightarrow>
          (if fq_id q \<noteq> None \<and> fq_id q \<in> set (map fq_id qs)
           then (if slug_exists (filter (\<lambda>row. fq_id row \<noteq> fq_id q) qs) (fq_slug q)
                 then Inl IntegrityError
                 else (let q' = q\<lparr>fq_updated_at := now\<rparr>
                       in Inr (q', s\<lparr>forum_questions :=
                                 map (\<lambda>row. if fq_id row = fq_id q then q' else row) qs\<rparr>)))
           else (if slug_exists qs (fq_slug q) then Inl IntegrityError
                 else (let pk = (case fq_id q of None \<Rightarrow> next_id (map fq_id qs) | Some i \<Rightarrow> i);
                           q' = q\<lparr>fq_id := Some pk, fq_created_at := now, fq_updated_at := now\<rparr>
                       in Inr (q', s\<lparr>forum_questions := qs @ [q']\<rparr>)))))"

text \<open>
  \<^verbatim>\<open>
  def save(self, *args, **kwargs):
      if not self.slug:
          ...
          self.slug = slug
      super().save(*args, **kwargs)
  \<close>
  The result is the store's answer (an error, or the instance as saved and the new store),
  or \<open>None\<close> where the loop does not return.
\<close>

definition save ::
  "forum_question \<Rightarrow> field list option \<Rightarrow> int \<Rightarrow> store \<Rightarrow> (error + forum_question \<times> store) option" where
  "save q update_fields now s =
     (case assign_slug (forum_questions s) q of
        None \<Rightarrow> None
      | Some q' \<Rightarrow> Some (model_save q' update_fields now s))"

section \<open>Requests and responses\<close>

text \<open>
  A request carries the authenticated user (\<open>None\<close> for an anonymous caller), the method
  and the posted form data. A redirect names the URL pattern and its arguments.
\<close>

record request =
  r_user :: "user option"
  r_method :: string
  r_post :: "string \<Rightarrow> string option"

datatype response = Redirect string "string list"

datatype message = Msg_error string | Msg_success string

text \<open>
  \<open>redirect('forum_question', slug=slug)\<close> reverses \<open>forum/<slug:slug>/\<close>; the \<open>slug\<close>
  converter accepts a non-empty string of letters, digits, hyphens and underscores.
\<close>

definition slug_converter :: "string \<Rightarrow> bool" where
  "slug_converter s = (s \<noteq> [] \<and> list_all (\<lambda>c. is_ascii c \<and> (is_word c \<or> c = CHR ''-'')) s)"

definition redirect_forum_question :: "string \<Rightarrow> error + response" where
  "redirect_forum_question slug =
     (if slug_converter slug then Inr (Redirect ''forum_question'' [slug]) else Inl NoReverseMatch)"

text \<open>\<open>get_object_or_404(ForumQuestion, slug=slug)\<close>\<close>

definition get_object_or_404 :: "forum_question list \<Rightarrow> string \<Rightarrow> error + forum_question" where
  "get_object_or_404 qs slug =
     (case filter (\<lambda>q. fq_slug q = slug) qs of
        [] \<Rightarrow> Inl Http404
      | [q] \<Rightarrow> Inr q
      | _ \<Rightarrow> Inl MultipleObjectsReturned)"

section \<open>Write operations of \<open>views.py\<close>\<close>

text \<open>
  \<open>ForumQuestionDetailView.get_object\<close>:
  \<^verbatim>\<open>
  question = get_object_or_404(ForumQuestion, slug=self.kwargs['slug'])
  question.views += 1
  question.save(update_fields=['views'])
  return question
  \<close>
\<close>

definition get_object :: "string \<Rightarrow> int \<Rightarrow> store \<Rightarrow> ((error + forum_question) \<times> store) option" where
  "get_object slug now s =
     (case get_object_or_404 (forum_questions s) slug of
        Inl e \<Rightarrow> Some (Inl e, s)
      | Inr question \<Rightarrow>
          (case save (question\<lparr>fq_views := fq_views question + 1\<rparr>) (Some [Views]) now s of
             None \<Rightarrow> None
           | Some (Inl e) \<Rightarrow> Some (Inl e, s)
           | Some (Inr (question', s')) \<Rightarrow> Some (Inr question', s')))"

text \<open>
  \<open>ForumAnswerForm(request.POST).is_valid()\<close>: the content field is required and stripped
  by the form field, then \<open>clean_content\<close> asks for at least 10 characters. The result is
  the cleaned content of a valid form.
\<close>

definition ForumAnswerForm_clean :: "(string \<Rightarrow> string option) \<Rightarrow> string option" where
  "ForumAnswerForm_clean post =
     (case post ''content'' of
        None \<Rightarrow> None
      | Some v \<Rightarrow>
          (let content = strip v
           in if content = [] \<or> CHR 0x00 \<in> set content then None
              else if length content < 10 then None
              else Some content))"

text \<open>
  \<open>post_answer(request, slug)\<close>. The result is the response (or the exception that ends
  the request), the messages queued, and the store.
\<close>

definition post_answer ::
  "request \<Rightarrow> string \<Rightarrow> int \<Rightarrow> store \<Rightarrow> ((error + response) \<times> message list \<times> store) option" where
  "post_answer req slug now s =
     (case r_user req of
        None \<Rightarrow>
          Some (Inr (Redirect ''login'' []),
                [Msg_error ''You must be logged in to post an answer.''], s)
      | Some usr \<Rightarrow>
          (case get_object_or_404 (forum_questions s) slug of
             Inl e \<Rightarrow> Some (Inl e, [], s)
           | Inr question \<Rightarrow>
               (if r_method req = ''POST'' then
                  (case ForumAnswerForm_clean (r_post req) of
                     Some content \<Rightarrow>
                       (let answer = \<lparr>fa_id = Some (next_id (map fa_id (forum_answers s))),
                                       fa_question = fq_id question, fa_content = content,
                                       fa_author = u_id usr, fa_is_accepted = False,
                                       fa_created_at = now, fa_updated_at = now\<rparr>;
                            s1 = s\<lparr>forum_answers := forum_answers s @ [answer]\<rparr>;
                            posted = [Msg_success ''Your answer has been posted!'']
                        in if \<not> fq_is_answered question then
                             (case save (question\<lparr>fq_is_answered := True\<rparr>) (Some [Is_answered]) now s1 of
                                None \<Rightarrow> None
                              | Some (Inl e) \<Rightarrow> Some (Inl e, [], s1)
                              | Some (Inr (question', s2)) \<Rightarrow>
                                  Some (redirect_forum_question slug, posted, s2))
                           else Some (redirect_forum_question slug, posted, s1))
                   | None \<Rightarrow>
                       Some (redirect_forum_question slug,
                             [Msg_error ''Please correct the errors below.''], s))
                else Some (redirect_forum_question slug, [], s))))"

text \<open>
  \<open>AskQuestionView.form_valid\<close>, for a caller the login mixin has let through and the
  fields \<open>('title', 'content', 'category')\<close> of a form that has validated. The form's
  instance is a new \<open>ForumQuestion\<close>: no primary key, the fields of the form, and the
  defaults of the model for the rest. The author is set, the instance saved, and the caller
  sent to the new question.
\<close>

definition form_instance :: "string \<Rightarrow> string \<Rightarrow> nat option \<Rightarrow> forum_question" where
  "form_instance title content cat =
     \<lparr>fq_id = None, fq_title = title, fq_content = content, fq_author = 0,
      fq_category = cat, fq_slug = [], fq_is_answered = False, fq_views = 0,
      fq_created_at = 0, fq_updated_at = 0\<rparr>"

definition form_valid ::
  "user \<Rightarrow> string \<Rightarrow> string \<Rightarrow> nat option \<Rightarrow> int \<Rightarrow> store \<Rightarrow>
     ((error + response) \<times> message list \<times> store) option" where
  "form_valid usr title content cat now s =
     (let posted = [Msg_success ''Your question has been posted successfully!'']
      in case save ((form_instance title content cat)\<lparr>fq_author := u_id usr\<rparr>) None now s of
           None \<Rightarrow> None
         | Some (Inl e) \<Rightarrow> Some (Inl e, posted, s)
         | Some (Inr (obj, s')) \<Rightarrow> Some (redirect_forum_question (fq_slug obj), posted, s'))"

section \<open>Read views and the JSON API\<close>

text \<open>The order \<open>['-created_at']\<close> of a model's \<open>Meta\<close>; rows of one instant keep the store's order.\<close>

definition newest_first :: "('a \<Rightarrow> int) \<Rightarrow> 'a list \<Rightarrow> 'a list" where
  "newest_first created rows = sort_key (\<lambda>row. - created row) rows"

text \<open>\<open>User.get_full_name()\<close>\<close>

definition get_full_name :: "user \<Rightarrow> string" where
  "get_full_name u = strip (u_first_name u @ '' '' @ u_last_name u)"

record blog_json =
  bj_id :: nat
  bj_title :: string
  bj_content :: string
  bj_author :: string
  bj_category :: string
  bj_featured_image :: "string option"
  bj_created_at :: int
  bj_slug :: string

text \<open>
  \<open>blog_feed_api\<close>. The URL of a stored file is the answer of the configured storage
  backend, which is not part of the repository: it is the parameter \<open>storage_url\<close>.
  A file field is true when it names a file.
\<close>

definition blog_entry :: "(string \<Rightarrow> string) \<Rightarrow> blog_post \<Rightarrow> blog_json" where
  "blog_entry storage_url post =
     \<lparr>bj_id = bp_id post,
      bj_title = bp_title post,
      bj_content = take 200 (bp_content post),
      bj_author = (if get_full_name (bp_author post) \<noteq> [] then get_full_name (bp_author post)
                   else u_username (bp_author post)),
      bj_category = (case bp_category post of Some c \<Rightarrow> c_name c | None \<Rightarrow> ''General''),
      bj_featured_image = (case bp_featured_image post of
                             None \<Rightarrow> None
                           | Some name \<Rightarrow> if name \<noteq> [] then Some (storage_url name) else None),
      bj_created_at = bp_created_at post,
      bj_slug = bp_slug post\<rparr>"

definition blog_feed_api :: "(string \<Rightarrow> string) \<Rightarrow> store \<Rightarrow> blog_json list" where
  "blog_feed_api storage_url s =
     map (blog_entry storage_url)
       (take 5 (newest_first bp_created_at (filter bp_is_published (blog_posts s))))"

record notification_json =
  nj_id :: nat
  nj_title :: string
  nj_message :: string
  nj_type :: string
  nj_is_read :: bool
  nj_created_at :: int
  nj_url :: "string option"

record notifications_response =
  status :: nat
  body_notifications :: "notification_json list"
  body_error :: "string option"

definition notification_entry :: "notification \<Rightarrow> notification_json" where
  "notification_entry n =
     \<lparr>nj_id = n_id n, nj_title = n_title n, nj_message = n_message n,
      nj_type = n_notification_type n, nj_is_read = n_is_read n,
      nj_created_at = n_created_at n, nj_url = n_related_url n\<rparr>"

definition notifications_api :: "request \<Rightarrow> store \<Rightarrow> notifications_response" where
  "notifications_api req s =
     (case r_user req of
        None \<Rightarrow> \<lparr>status = 401, body_notifications = [],
                  body_error = Some ''User not authenticated''\<rparr>
      | Some usr \<Rightarrow>
          \<lparr>status = 200,
           body_notifications =
             map notification_entry
               (take 5 (newest_first n_created_at
                  (filter (\<lambda>n. n_user n = u_id usr \<and> \<not> n_is_read n) (notifications s)))),
           body_error = None\<rparr>)"

text \<open>
  The related posts of \<open>BlogPostDetailView.get_context_data\<close>:
  \<^verbatim>\<open>
  BlogPost.objects.filter(is_published=True, category=post.category
      ).exclude(id=post.id).select_related('author', 'category')[:4]
  \<close>
  A filter on \<open>category=None\<close> selects the rows whose category is null.
\<close>

definition related_posts :: "blog_post \<Rightarrow> store \<Rightarrow> blog_post list" where
  "related_posts post s =
     take 4 (newest_first bp_created_at
       (filter (\<lambda>p. bp_id p \<noteq> bp_id post)
          (filter (\<lambda>p. bp_is_published p \<and>
                       map_option c_id (bp_category p) = map_option c_id (bp_category post))
             (blog_posts s))))"

text \<open>
  \<open>BlogPostDetailView\<close>: the post is looked up by slug among the published posts, and
  the context holds it with its related posts.
\<close>

definition blog_post_detail :: "string \<Rightarrow> store \<Rightarrow> error + blog_post \<times> blog_post list" where
  "blog_post_detail slug s =
     (case filter (\<lambda>p. bp_slug p = slug) (filter bp_is_published (blog_posts s)) of
        [] \<Rightarrow> Inl Http404
      | [post] \<Rightarrow> Inr (post, related_posts post s)
      | _ \<Rightarrow> Inl MultipleObjectsReturned)"

text \<open>
  A storage backend for \<open>storage_url\<close>: the framework's \<open>FileSystemStorage\<close> puts its
  base URL (the setting \<open>MEDIA_URL\<close>) before the name of the file.
\<close>

definition file_system_url :: "string \<Rightarrow> string \<Rightarrow> string" where
  "file_system_url base_url name = base_url @ name"

section \<open>The program as a transition system\<close>

text \<open>
  The requests that \<open>urls.py\<close> routes to a view that reads or writes the tables above.
  The three read views leave the store as it is.
\<close>

datatype operation =
    Forum_question_detail string
  | Ask_question user string string "nat option"
  | Post_answer request string
  | Blog_feed_api
  | Notifications_api request
  | Blog_post_detail string

fun step :: "int \<Rightarrow> store \<Rightarrow> operation \<Rightarrow> store option" where
  "step now s (Forum_question_detail slug) = map_option snd (get_object slug now s)"
| "step now s (Ask_question usr title content cat) =
     map_option (\<lambda>r. snd (snd r)) (form_valid usr title content cat now s)"
| "step now s (Post_answer req slug) = map_option (\<lambda>r. snd (snd r)) (post_answer req slug now s)"
| "step now s Blog_feed_api = Some s"
| "step now s (Notifications_api req) = Some s"
| "step now s (Blog_post_detail slug) = Some s"

fun run :: "int \<Rightarrow> store \<Rightarrow> operation list \<Rightarrow> store option" where
  "run now s [] = Some s"
| "run now s (op # ops) = (case step now s op of None \<Rightarrow> None | Some s' \<Rightarrow> run (now + 1) s' ops)"

text \<open>
  The question table as the store keeps it: every row has a primary key, and no two rows
  have the same one.
\<close>

definition store_ok :: "store \<Rightarrow> bool" where
  "store_ok s = (None \<notin> set (map fq_id (forum_questions s)) \<and>
                 distinct (map fq_id (forum_questions s)))"

text \<open>
  What a later store keeps of an earlier one: every question row is still at its place,
  under its primary key and slug, an answered question is still answered, and no view
  count is lower.
\<close>

definition rows_kept :: "store \<Rightarrow> store \<Rightarrow> bool" where
  "rows_kept s s' =
     (\<forall>i<length (forum_questions s).
        i < length (forum_questions s') \<and>
        fq_id (forum_questions s' ! i) = fq_id (forum_questions s ! i) \<and>
        fq_slug (forum_questions s' ! i) = fq_slug (forum_questions s ! i) \<and>
        (fq_is_answered (forum_questions s ! i) \<longrightarrow> fq_is_answered (forum_questions s' ! i)) \<and>
        fq_views (forum_questions s ! i) \<le> fq_views (forum_questions s' ! i))"

section \<open>The specification's words\<close>

text \<open>
  The slug the specification promises for a base slug and a table: the base slug when no
  row has it, and otherwise the suffixed form with the least counter from 1 that no row has.
\<close>

definition spec_slug :: "forum_question list \<Rightarrow> string \<Rightarrow> string" where
  "spec_slug qs base_slug =
     (if \<not> slug_exists qs base_slug then base_slug
      else candidate base_slug (LEAST k. 1 \<le> k \<and> \<not> slug_exists qs (candidate base_slug k)))"

text \<open>
  An absolute resource locator names its scheme: letters, digits, \<open>+\<close>, \<open>-\<close> and \<open>.\<close>
  after a first letter, then a colon.
\<close>

definition is_letter :: "char \<Rightarrow> bool" where
  "is_letter c = (let n = (of_char c :: nat) in (97 \<le> n \<and> n \<le> 122) \<or> (65 \<le> n \<and> n \<le> 90))"

definition is_absolute_url :: "string \<Rightarrow> bool" where
  "is_absolute_url url =
     (let scheme = takeWhile (\<lambda>c. is_letter c \<or> c \<in> set ''0123456789+-.'') url
      in scheme \<noteq> [] \<and> is_letter (hd scheme) \<and>
         take 1 (drop (length scheme) url) = '':'')"

section \<open>Example data\<close>

definition empty_store :: store where
  "empty_store = \<lparr>blog_posts = [], notifications = [], forum_questions = [], forum_answers = []\<rparr>"

definition ann :: user where
  "ann = \<lparr>u_id = 1, u_username = ''ann'', u_first_name = ''Ann'', u_last_name = ''Lee''\<rparr>"

definition bob :: user where
  "bob = \<lparr>u_id = 2, u_username = ''bob'', u_first_name = [], u_last_name = []\<rparr>"

text \<open>Two published posts without a category, the older one with an image, and a draft.\<close>

definition post_a :: blog_post where
  "post_a = \<lparr>bp_id = 1, bp_title = ''Study plans'', bp_content = ''Plan every week.'',
     bp_author = ann, bp_category = None, bp_featured_image = Some ''blog/a.png'',
     bp_slug = ''study-plans'', bp_is_published = True, bp_created_at = 10\<rparr>"

definition post_b :: blog_post where
  "post_b = \<lparr>bp_id = 2, bp_title = ''Exam nerves'', bp_content = ''Breathe slowly.'',
     bp_author = bob, bp_category = None, bp_featured_image = None,
     bp_slug = ''exam-nerves'', bp_is_published = True, bp_created_at = 20\<rparr>"

definition post_c :: blog_post where
  "post_c = \<lparr>bp_id = 3, bp_title = ''Draft'', bp_content = ''Not ready.'',
     bp_author = ann, bp_category = None, bp_featured_image = Some [],
     bp_slug = ''draft'', bp_is_published = False, bp_created_at = 30\<rparr>"

definition blog_store :: store where
  "blog_store = empty_store\<lparr>blog_posts := [post_a, post_b, post_c]\<rparr>"

text \<open>Notifications of two users, one of them read.\<close>

definition notice :: "nat \<Rightarrow> nat \<Rightarrow> bool \<Rightarrow> int \<Rightarrow> notification" where
  "notice i uid seen t = \<lparr>n_id = i, n_user = uid, n_title = ''Notice'', n_message = ''Hello'',
     n_notification_type = ''system'', n_is_read = seen, n_related_url = None,
     n_created_at = t\<rparr>"

definition notice_store :: store where
  "notice_store = empty_store\<lparr>notifications :=
     [notice 1 1 False 10, notice 2 1 True 20, notice 3 2 False 30, notice 4 1 False 40]\<rparr>"

text \<open>Requests of a logged-in user: a page fetch, and a posted answer.\<close>

definition ann_get :: request where
  "ann_get = \<lparr>r_user = Some ann, r_method = ''GET'', r_post = Map.empty\<rparr>"

definition ann_post :: request where
  "ann_post = \<lparr>r_user = Some ann, r_method = ''POST'',
     r_post = [''content'' \<mapsto> ''  Read the syllabus first.  '']\<rparr>"

definition mba_title :: string where
  "mba_title = ''Tips for Passing Your MBA Exams''"

text \<open>A title of ten characters that slugifies to the empty string, once saved.\<close>

definition blank_saved :: forum_question where
  "blank_saved = (form_instance ''??????????'' ''What does this sign mean?'' None)
     \<lparr>fq_id := Some 1\<rparr>"

definition blank_store :: store where
  "blank_store = empty_store\<lparr>forum_questions := [blank_saved]\<rparr>"

text \<open>A stored question with a slug.\<close>

definition hello_saved :: forum_question where
  "hello_saved = (form_instance ''Hello world question'' ''Where does it come from?'' None)
     \<lparr>fq_id := Some 1, fq_slug := ''hello-world-question''\<rparr>"

definition hello_store :: store where
  "hello_store = empty_store\<lparr>forum_questions := [hello_saved]\<rparr>"

section \<open>Decimal numerals and suffixed slugs are distinct\<close>

lemma digit_char_inj: "a < 10 \<Longrightarrow> b < 10 \<Longrightarrow> digit_char a = digit_char b \<Longrightarrow> a = b"
  by (simp add: digit_char_def char_of_eq_iff take_bit_nat_eq_self)

lemma str_nat_nonempty: "str_nat n \<noteq> []" "[] \<noteq> str_nat n"
  by (subst str_nat.simps, simp)+

lemma str_nat_inj: "str_nat n = str_nat m \<Longrightarrow> n = m"
proof (induction n arbitrary: m rule: str_nat.induct)
  case (1 n)
  show ?case
  proof (cases "n < 10")
    case small_n: True
    show ?thesis
    proof (cases "m < 10")
      case True
      with small_n "1.prems" show ?thesis
        by (simp add: str_nat.simps [of n] str_nat.simps [of m] digit_char_inj)
    next
      case False
      with small_n "1.prems" show ?thesis
        by (simp add: str_nat.simps [of n] str_nat.simps [of m] str_nat_nonempty)
    qed
  next
    case big_n: False
    show ?thesis
    proof (cases "m < 10")
      case True
      with big_n "1.prems" show ?thesis
        by (simp add: str_nat.simps [of n] str_nat.simps [of m] str_nat_nonempty)
    next
      case False
      with big_n "1.prems" have eq: "str_nat (n div 10) = str_nat (m div 10)"
        and d: "digit_char (n mod 10) = digit_char (m mod 10)"
        by (simp_all add: str_nat.simps [of n] str_nat.simps [of m])
      from "1.IH" [OF big_n eq] have "n div 10 = m div 10" .
      moreover from d have "n mod 10 = m mod 10"
        by (intro digit_char_inj) simp_all
      ultimately show ?thesis
        by (metis div_mult_mod_eq)
    qed
  qed
qed

lemma candidate_inj: "candidate b j = candidate b k \<Longrightarrow> j = k"
  by (simp add: candidate_def str_nat_inj)

text \<open>A table is finite, so from any counter on some suffixed form is not in it.\<close>

lemma free_candidate: "\<exists>j\<ge>k. \<not> slug_exists qs (candidate b j)"
proof (rule ccontr)
  assume "\<not> ?thesis"
  then have "{k..} \<subseteq> candidate b -` set (map fq_slug qs)"
    by (auto simp: slug_exists_def)
  moreover have "finite (candidate b -` set (map fq_slug qs))"
    by (rule finite_vimageI) (auto simp: inj_on_def dest: candidate_inj)
  ultimately have "finite {k..}" by (rule finite_subset)
  then show False by (simp add: infinite_Ici)
qed

section \<open>The loop returns the first free form\<close>

lemma probe_from:
  "\<not> slug_exists qs (candidate b (k + d)) \<Longrightarrow>
   probe_slug qs b (candidate b k) (Suc k) =
     Some (candidate b (LEAST j. k \<le> j \<and> \<not> slug_exists qs (candidate b j)))"
proof (induction d arbitrary: k)
  case 0
  then have "(LEAST j. k \<le> j \<and> \<not> slug_exists qs (candidate b j)) = k"
    by (intro Least_equality) auto
  with 0 show ?case by (subst probe_slug.simps) simp
next
  case (Suc d)
  show ?case
  proof (cases "slug_exists qs (candidate b k)")
    case False
    then have "(LEAST j. k \<le> j \<and> \<not> slug_exists qs (candidate b j)) = k"
      by (intro Least_equality) auto
    with False show ?thesis by (subst probe_slug.simps) simp
  next
    case True
    have "\<And>j. (k \<le> j \<and> \<not> slug_exists qs (candidate b j)) =
              (Suc k \<le> j \<and> \<not> slug_exists qs (candidate b j))"
      using True by (metis Suc_leD Suc_leI le_neq_implies_less)
    then have "(LEAST j. k \<le> j \<and> \<not> slug_exists qs (candidate b j)) =
               (LEAST j. Suc k \<le> j \<and> \<not> slug_exists qs (candidate b j))"
      by simp
    moreover from Suc.prems have "\<not> slug_exists qs (candidate b (Suc k + d))" by simp
    from Suc.IH [OF this] have "probe_slug qs b (candidate b (Suc k)) (Suc (Suc k)) =
       Some (candidate b (LEAST j. Suc k \<le> j \<and> \<not> slug_exists qs (candidate b j)))" .
    ultimately show ?thesis
      using True by (subst probe_slug.simps) simp
  qed
qed

lemma probe_slug_result: "probe_slug qs b b 1 = Some (spec_slug qs b)"
proof (cases "slug_exists qs b")
  case False
  then show ?thesis by (subst probe_slug.simps) (simp add: spec_slug_def)
next
  case True
  obtain j where "1 \<le> j" "\<not> slug_exists qs (candidate b j)"
    using free_candidate [of 1 qs b] by blast
  then have "\<not> slug_exists qs (candidate b (1 + (j - 1)))" by simp
  from probe_from [OF this] True show ?thesis
    by (subst probe_slug.simps) (simp add: spec_slug_def)
qed

lemma spec_slug_free: "\<not> slug_exists qs (spec_slug qs b)"
proof (cases "slug_exists qs b")
  case False
  then show ?thesis by (simp add: spec_slug_def)
next
  case True
  obtain j where j: "1 \<le> j \<and> \<not> slug_exists qs (candidate b j)"
    using free_candidate [of 1 qs b] by blast
  have "1 \<le> (LEAST k. 1 \<le> k \<and> \<not> slug_exists qs (candidate b k)) \<and>
        \<not> slug_exists qs (candidate b (LEAST k. 1 \<le> k \<and> \<not> slug_exists qs (candidate b k)))"
    by (rule LeastI [of "\<lambda>k. 1 \<le> k \<and> \<not> slug_exists qs (candidate b k)", OF j])
  with True show ?thesis by (simp add: spec_slug_def)
qed

lemma assign_slug_eq:
  "assign_slug qs q =
     Some (if fq_slug q = [] then q\<lparr>fq_slug := spec_slug qs (slugify (fq_title q))\<rparr> else q)"
  unfolding assign_slug_def Let_def probe_slug_result by simp

lemma save_eq:
  "save q update_fields now s =
     Some (model_save
             (if fq_slug q = []
              then q\<lparr>fq_slug := spec_slug (forum_questions s) (slugify (fq_title q))\<rparr> else q)
             update_fields now s)"
  by (simp add: save_def assign_slug_eq)

section \<open>Slug assignment\<close>

text \<open>
  C1. Creating a ForumQuestion (no primary key) with title \<open>T\<close> and no preset slug always
  succeeds and inserts one row; its slug is the slugified title when no row has that slug,
  and otherwise the first of the forms base-1, base-2, ... (counted from 1) that no row has.
  The result is a function of the title and the table. With an empty table, asking two
  questions under the title "Tips for Passing Your MBA Exams" stores the slugs
  \<open>tips-for-passing-your-mba-exams\<close> and \<open>tips-for-passing-your-mba-exams-1\<close>.
\<close>

theorem create_assigns_first_free_slug:
  "(fq_slug q = [] \<and> fq_id q = None \<longrightarrow>
      (\<exists>q'. save q None now s = Some (Inr (q', s\<lparr>forum_questions := forum_questions s @ [q']\<rparr>)) \<and>
            fq_title q' = fq_title q \<and>
            fq_slug q' = spec_slug (forum_questions s) (slugify (fq_title q)) \<and>
            \<not> slug_exists (forum_questions s) (fq_slug q'))) \<and>
   map_option (\<lambda>s. map fq_slug (forum_questions s))
     (run now empty_store [Ask_question ann mba_title ''How do I prepare?'' None,
                           Ask_question bob mba_title ''Any further advice?'' None]) =
     Some [''tips-for-passing-your-mba-exams'', ''tips-for-passing-your-mba-exams-1'']"
proof (intro conjI impI)
  assume new: "fq_slug q = [] \<and> fq_id q = None"
  let ?slug = "spec_slug (forum_questions s) (slugify (fq_title q))"
  let ?q' = "q\<lparr>fq_slug := ?slug, fq_id := Some (next_id (map fq_id (forum_questions s))),
               fq_created_at := now, fq_updated_at := now\<rparr>"
  have free: "\<not> slug_exists (forum_questions s) ?slug"
    by (rule spec_slug_free)
  have "save q None now s = Some (Inr (?q', s\<lparr>forum_questions := forum_questions s @ [?q']\<rparr>))"
    using new free by (simp add: save_eq model_save_def Let_def)
  moreover have "fq_title ?q' = fq_title q" "fq_slug ?q' = ?slug" by simp_all
  ultimately show "\<exists>q'. save q None now s =
      Some (Inr (q', s\<lparr>forum_questions := forum_questions s @ [q']\<rparr>)) \<and>
      fq_title q' = fq_title q \<and> fq_slug q' = ?slug \<and>
      \<not> slug_exists (forum_questions s) (fq_slug q')"
    using free by metis
next
  show "map_option (\<lambda>s. map fq_slug (forum_questions s))
     (run now empty_store [Ask_question ann mba_title ''How do I prepare?'' None,
                           Ask_question bob mba_title ''Any further advice?'' None]) =
     Some [''tips-for-passing-your-mba-exams'', ''tips-for-passing-your-mba-exams-1'']"
    by code_simp
qed

theorem create_assigns_first_free_slug_witness:
  "fq_slug (form_instance mba_title ''How do I prepare?'' None) = [] \<and>
   fq_id (form_instance mba_title ''How do I prepare?'' None) = None \<and>
   (\<exists>q'. save (form_instance mba_title ''How do I prepare?'' None) None 0 empty_store =
           Some (Inr (q', empty_store\<lparr>forum_questions := [q']\<rparr>)) \<and>
         fq_slug q' = ''tips-for-passing-your-mba-exams'')"
proof -
  let ?q = "form_instance mba_title ''How do I prepare?'' None"
  have new: "fq_slug ?q = [] \<and> fq_id ?q = None"
    by (simp add: form_instance_def)
  have slug: "slugify (fq_title ?q) = ''tips-for-passing-your-mba-exams''"
    by code_simp
  have table: "forum_questions empty_store = []"
    by (simp add: empty_store_def)
  have none: "spec_slug [] ''tips-for-passing-your-mba-exams'' = ''tips-for-passing-your-mba-exams''"
    by (simp add: spec_slug_def slug_exists_def)
  from create_assigns_first_free_slug [of ?q 0 empty_store] new
  obtain q' where
    "save ?q None 0 empty_store =
       Some (Inr (q', empty_store\<lparr>forum_questions := forum_questions empty_store @ [q']\<rparr>))"
    "fq_slug q' = spec_slug (forum_questions empty_store) (slugify (fq_title ?q))"
    by blast
  then have "save ?q None 0 empty_store = Some (Inr (q', empty_store\<lparr>forum_questions := [q']\<rparr>)) \<and>
             fq_slug q' = ''tips-for-passing-your-mba-exams''"
    by (simp add: table slug none)
  with new show ?thesis by blast
qed

text \<open>
  C9. A first save (no primary key) of a ForumQuestion whose slug is already set does not
  touch the slug: the store rejects the write when a row has that slug, and otherwise
  inserts the instance with the slug as it was given.
\<close>

theorem preset_slug_stored_as_given:
  "fq_slug q \<noteq> [] \<Longrightarrow> fq_id q = None \<Longrightarrow>
   save q None now s =
     Some (if slug_exists (forum_questions s) (fq_slug q) then Inl IntegrityError
           else Inr (q\<lparr>fq_id := Some (next_id (map fq_id (forum_questions s))),
                        fq_created_at := now, fq_updated_at := now\<rparr>,
                     s\<lparr>forum_questions := forum_questions s @
                          [q\<lparr>fq_id := Some (next_id (map fq_id (forum_questions s))),
                              fq_created_at := now, fq_updated_at := now\<rparr>]\<rparr>))"
  by (simp add: save_eq model_save_def Let_def)

theorem preset_slug_stored_as_given_witness:
  "save ((form_instance ''A question'' ''Some content'' None)\<lparr>fq_slug := ''Not A Slug!''\<rparr>)
     None 7 empty_store =
   Some (Inr ((form_instance ''A question'' ''Some content'' None)
                \<lparr>fq_slug := ''Not A Slug!'', fq_id := Some 1,
                  fq_created_at := 7, fq_updated_at := 7\<rparr>,
              empty_store\<lparr>forum_questions :=
                [(form_instance ''A question'' ''Some content'' None)
                   \<lparr>fq_slug := ''Not A Slug!'', fq_id := Some 1,
                     fq_created_at := 7, fq_updated_at := 7\<rparr>]\<rparr>))"
  using preset_slug_stored_as_given
    [of "(form_instance ''A question'' ''Some content'' None)\<lparr>fq_slug := ''Not A Slug!''\<rparr>"
        7 empty_store]
  by (simp add: form_instance_def empty_store_def slug_exists_def next_id_def)

text \<open>
  C8, as stated, fails: a question whose title slugifies to the empty string is stored
  with the empty slug, and the next save of that very instance, its title unchanged,
  computes a slug again and stores \<open>-1\<close>; after an edit of the title the next save
  derives the slug from the new title.
\<close>

theorem slug_recomputed_counterexample:
  "save (form_instance ''??????????'' ''What does this sign mean?'' None) None 0 empty_store =
     Some (Inr (blank_saved, blank_store)) \<and>
   fq_slug blank_saved = [] \<and>
   save blank_saved None 1 blank_store =
     Some (Inr (blank_saved\<lparr>fq_slug := ''-1'', fq_updated_at := 1\<rparr>,
                empty_store\<lparr>forum_questions :=
                  [blank_saved\<lparr>fq_slug := ''-1'', fq_updated_at := 1\<rparr>]\<rparr>)) \<and>
   save (blank_saved\<lparr>fq_title := ''Hello world''\<rparr>) None 1 blank_store =
     Some (Inr (blank_saved\<lparr>fq_title := ''Hello world'', fq_slug := ''hello-world'',
                             fq_updated_at := 1\<rparr>,
                empty_store\<lparr>forum_questions :=
                  [blank_saved\<lparr>fq_title := ''Hello world'', fq_slug := ''hello-world'',
                               fq_updated_at := 1\<rparr>]\<rparr>))"
  by code_simp

text \<open>
  C8, amended. A save of a ForumQuestion whose slug is not empty always returns and never
  computes a slug, whatever the title is by then: the instance keeps its slug, and when
  the instance is a stored row (its primary key names rows with that slug) the slug column
  of the table is left as it was.
\<close>

theorem nonempty_slug_never_recomputed:
  assumes nonempty: "fq_slug q \<noteq> []"
  shows
  "\<exists>r. save q update_fields now s = Some r \<and>
       (\<forall>q' s'. r = Inr (q', s') \<longrightarrow>
          fq_slug q' = fq_slug q \<and> fq_title q' = fq_title q \<and>
          (fq_id q \<noteq> None \<and> fq_id q \<in> set (map fq_id (forum_questions s)) \<and>
           (\<forall>row\<in>set (forum_questions s). fq_id row = fq_id q \<longrightarrow> fq_slug row = fq_slug q)
           \<longrightarrow> map fq_slug (forum_questions s') = map fq_slug (forum_questions s)))"
proof (cases update_fields)
  case None
  with nonempty show ?thesis
    by (auto simp: save_eq model_save_def Let_def split: if_splits)
next
  case (Some fs)
  have "fq_slug (write_fields fs q row) = fq_slug row" for row
    by (simp add: write_fields_def Let_def)
  with Some nonempty show ?thesis
    by (auto simp: save_eq model_save_def Let_def split: if_splits)
qed

theorem nonempty_slug_never_recomputed_witness:
  "fq_slug (hello_saved\<lparr>fq_title := ''Another title altogether''\<rparr>) \<noteq> [] \<and>
   save (hello_saved\<lparr>fq_title := ''Another title altogether''\<rparr>) None 5 hello_store =
     Some (Inr (hello_saved\<lparr>fq_title := ''Another title altogether'', fq_updated_at := 5\<rparr>,
                empty_store\<lparr>forum_questions :=
                  [hello_saved\<lparr>fq_title := ''Another title altogether'', fq_updated_at := 5\<rparr>]\<rparr>)) \<and>
   fq_slug (hello_saved\<lparr>fq_title := ''Another title altogether'', fq_updated_at := 5\<rparr>) =
     ''hello-world-question''"
proof -
  let ?q = "hello_saved\<lparr>fq_title := ''Another title altogether''\<rparr>"
  have nonempty: "fq_slug ?q \<noteq> []"
    by (simp add: hello_saved_def form_instance_def)
  from nonempty_slug_never_recomputed [OF nonempty, of None 5 hello_store]
  obtain r where r: "save ?q None 5 hello_store = Some r"
    and keep: "\<forall>q' s'. r = Inr (q', s') \<longrightarrow> fq_slug q' = fq_slug ?q"
    by blast
  have "save ?q None 5 hello_store =
     Some (Inr (hello_saved\<lparr>fq_title := ''Another title altogether'', fq_updated_at := 5\<rparr>,
                empty_store\<lparr>forum_questions :=
                  [hello_saved\<lparr>fq_title := ''Another title altogether'', fq_updated_at := 5\<rparr>]\<rparr>))"
    by code_simp
  moreover from this r keep
  have "fq_slug (hello_saved\<lparr>fq_title := ''Another title altogether'', fq_updated_at := 5\<rparr>) =
          fq_slug ?q"
    by simp
  moreover have "fq_slug ?q = ''hello-world-question''"
    by (simp add: hello_saved_def form_instance_def)
  ultimately show ?thesis using nonempty by simp
qed

section \<open>Read views\<close>

lemma newest_first_sorted:
  "sorted_wrt (\<lambda>a b. created b \<le> created a) (newest_first created rows)"
proof -
  have "sorted (map (\<lambda>row. - created row) (newest_first created rows))"
    by (simp add: newest_first_def)
  then show ?thesis
    by (simp add: sorted_map)
qed

lemma newest_first_set: "set (newest_first created rows) = set rows"
  by (simp add: newest_first_def)

lemma newest_first_length: "length (newest_first created rows) = length rows"
  by (simp add: newest_first_def)

lemma newest_first_empty: "newest_first created rows = [] \<longleftrightarrow> rows = []"
  using newest_first_length [of created rows] by (metis length_0_conv)

text \<open>The first \<open>k\<close> rows of the order are the newest: a row left out is no newer than any row kept.\<close>

lemma newest_first_take:
  "sorted_wrt (\<lambda>a b. created b \<le> created a) (take k (newest_first created rows)) \<and>
   set (take k (newest_first created rows)) \<subseteq> set rows \<and>
   length (take k (newest_first created rows)) = min k (length rows) \<and>
   (\<forall>kept\<in>set (take k (newest_first created rows)).
      \<forall>left\<in>set (drop k (newest_first created rows)). created left \<le> created kept)"
proof -
  let ?xs = "newest_first created rows"
  have sorted: "sorted_wrt (\<lambda>a b. created b \<le> created a) (take k ?xs @ drop k ?xs)"
    using newest_first_sorted [of created rows] by simp
  then have "sorted_wrt (\<lambda>a b. created b \<le> created a) (take k ?xs)"
    and "\<forall>kept\<in>set (take k ?xs). \<forall>left\<in>set (drop k ?xs). created left \<le> created kept"
    unfolding sorted_wrt_append by blast+
  moreover have "set (take k ?xs) \<subseteq> set rows"
    using set_take_subset [of k ?xs] by (simp add: newest_first_set)
  moreover have "length (take k ?xs) = min k (length rows)"
    by (simp add: newest_first_length min.commute)
  ultimately show ?thesis by blast
qed

text \<open>
  C2, as stated, fails: the published post \<open>study-plans\<close> has no category, and its detail
  view relates it to the other published post without a category.
\<close>

theorem related_posts_counterexample:
  "blog_post_detail ''study-plans'' blog_store = Inr (post_a, [post_b]) \<and>
   bp_is_published post_a \<and> bp_category post_a = None"
  by code_simp

text \<open>
  C2, amended. For a published BlogPost without a category, the related posts of the
  detail view are the other published posts without a category, newest first and at most 4
  of them: the list is empty only when the store holds no such post.
\<close>

theorem related_posts_without_category:
  assumes "blog_post_detail slug s = Inr (post, related)" and "bp_category post = None"
  shows "bp_is_published post \<and>
         related = take 4 (newest_first bp_created_at
           (filter (\<lambda>p. bp_is_published p \<and> bp_category p = None \<and> bp_id p \<noteq> bp_id post)
              (blog_posts s))) \<and>
         (related = [] \<longleftrightarrow>
            \<not> (\<exists>p\<in>set (blog_posts s).
                  bp_is_published p \<and> bp_category p = None \<and> bp_id p \<noteq> bp_id post))"
proof -
  from assms(1) have found:
    "filter (\<lambda>p. bp_slug p = slug) (filter bp_is_published (blog_posts s)) = [post]"
    and rel: "related = related_posts post s"
    by (auto simp: blog_post_detail_def split: list.splits)
  from found have "post \<in> set (filter (\<lambda>p. bp_slug p = slug) (filter bp_is_published (blog_posts s)))"
    by simp
  then have published: "bp_is_published post" by simp
  have same: "filter (\<lambda>p. bp_id p \<noteq> bp_id post)
       (filter (\<lambda>p. bp_is_published p \<and>
                    map_option c_id (bp_category p) = map_option c_id (bp_category post))
          (blog_posts s)) =
     filter (\<lambda>p. bp_is_published p \<and> bp_category p = None \<and> bp_id p \<noteq> bp_id post)
       (blog_posts s)"
    unfolding filter_filter using assms(2) by (intro filter_cong) auto
  have eq: "related = take 4 (newest_first bp_created_at
           (filter (\<lambda>p. bp_is_published p \<and> bp_category p = None \<and> bp_id p \<noteq> bp_id post)
              (blog_posts s)))"
    unfolding rel related_posts_def same ..
  have "related = [] \<longleftrightarrow>
        filter (\<lambda>p. bp_is_published p \<and> bp_category p = None \<and> bp_id p \<noteq> bp_id post)
          (blog_posts s) = []"
    unfolding eq by (simp add: newest_first_empty)
  then have "related = [] \<longleftrightarrow>
        \<not> (\<exists>p\<in>set (blog_posts s).
              bp_is_published p \<and> bp_category p = None \<and> bp_id p \<noteq> bp_id post)"
    by (simp add: filter_empty_conv)
  with published eq show ?thesis by blast
qed

theorem related_posts_without_category_witness:
  "blog_post_detail ''exam-nerves'' blog_store = Inr (post_b, [post_a]) \<and>
   bp_category post_b = None \<and> bp_is_published post_b \<and>
   [post_a] = take 4 (newest_first bp_created_at
     (filter (\<lambda>p. bp_is_published p \<and> bp_category p = None \<and> bp_id p \<noteq> bp_id post_b)
        (blog_posts blog_store)))"
proof -
  have detail: "blog_post_detail ''exam-nerves'' blog_store = Inr (post_b, [post_a])"
    by code_simp
  have none: "bp_category post_b = None"
    by (simp add: post_b_def)
  from related_posts_without_category [OF detail none] detail none
  show ?thesis by blast
qed

text \<open>
  C3. An anonymous caller of the notifications API gets status 401, no notification and
  the error text. An authenticated caller gets status 200 and the entries of at most 5
  rows of the notification table, each a row of the caller that is not read, the newest
  first; they are the newest such rows, and no entry is marked read.
\<close>

theorem notifications_api_own_unread:
  "(r_user req = None \<longrightarrow>
      notifications_api req s =
        \<lparr>status = 401, body_notifications = [], body_error = Some ''User not authenticated''\<rparr>) \<and>
   (\<forall>usr. r_user req = Some usr \<longrightarrow>
      status (notifications_api req s) = 200 \<and>
      body_error (notifications_api req s) = None \<and>
      (\<forall>e\<in>set (body_notifications (notifications_api req s)). \<not> nj_is_read e) \<and>
      (\<exists>rows. body_notifications (notifications_api req s) = map notification_entry rows \<and>
         (\<forall>n\<in>set rows. n \<in> set (notifications s) \<and> n_user n = u_id usr \<and> \<not> n_is_read n) \<and>
         length rows = min 5 (length (filter (\<lambda>n. n_user n = u_id usr \<and> \<not> n_is_read n)
                                        (notifications s))) \<and>
         sorted_wrt (\<lambda>a b. n_created_at b \<le> n_created_at a) rows \<and>
         (\<forall>n\<in>set (notifications s). n_user n = u_id usr \<and> \<not> n_is_read n \<and> n \<notin> set rows \<longrightarrow>
            (\<forall>kept\<in>set rows. n_created_at n \<le> n_created_at kept))))"
proof (intro conjI allI impI)
  assume "r_user req = None"
  then show "notifications_api req s =
        \<lparr>status = 401, body_notifications = [], body_error = Some ''User not authenticated''\<rparr>"
    by (simp add: notifications_api_def)
next
  fix usr assume usr: "r_user req = Some usr"
  let ?mine = "filter (\<lambda>n. n_user n = u_id usr \<and> \<not> n_is_read n) (notifications s)"
  let ?rows = "take 5 (newest_first n_created_at ?mine)"
  have body: "body_notifications (notifications_api req s) = map notification_entry ?rows"
    using usr by (simp add: notifications_api_def)
  note facts = newest_first_take [of n_created_at 5 ?mine]
  from facts have sub: "set ?rows \<subseteq> set ?mine" by blast
  show "status (notifications_api req s) = 200"
    using usr by (simp add: notifications_api_def)
  show "body_error (notifications_api req s) = None"
    using usr by (simp add: notifications_api_def)
  show "\<forall>e\<in>set (body_notifications (notifications_api req s)). \<not> nj_is_read e"
    unfolding body using sub by (auto simp: notification_entry_def)
  have left: "\<forall>n\<in>set (notifications s). n_user n = u_id usr \<and> \<not> n_is_read n \<and> n \<notin> set ?rows \<longrightarrow>
            (\<forall>kept\<in>set ?rows. n_created_at n \<le> n_created_at kept)"
  proof (intro ballI impI)
    fix n kept
    assume "n \<in> set (notifications s)"
      and n: "n_user n = u_id usr \<and> \<not> n_is_read n \<and> n \<notin> set ?rows"
      and kept: "kept \<in> set ?rows"
    then have "n \<in> set (newest_first n_created_at ?mine)"
      by (simp add: newest_first_set)
    then have "n \<in> set (take 5 (newest_first n_created_at ?mine) @
                         drop 5 (newest_first n_created_at ?mine))"
      by simp
    with n have "n \<in> set (drop 5 (newest_first n_created_at ?mine))"
      unfolding set_append by blast
    with facts kept show "n_created_at n \<le> n_created_at kept" by blast
  qed
  have "(\<forall>n\<in>set ?rows. n \<in> set (notifications s) \<and> n_user n = u_id usr \<and> \<not> n_is_read n)"
    using sub by auto
  moreover have "length ?rows = min 5 (length ?mine)"
    using facts by blast
  moreover have "sorted_wrt (\<lambda>a b. n_created_at b \<le> n_created_at a) ?rows"
    using facts by blast
  ultimately show "\<exists>rows. body_notifications (notifications_api req s) = map notification_entry rows \<and>
         (\<forall>n\<in>set rows. n \<in> set (notifications s) \<and> n_user n = u_id usr \<and> \<not> n_is_read n) \<and>
         length rows = min 5 (length ?mine) \<and>
         sorted_wrt (\<lambda>a b. n_created_at b \<le> n_created_at a) rows \<and>
         (\<forall>n\<in>set (notifications s). n_user n = u_id usr \<and> \<not> n_is_read n \<and> n \<notin> set rows \<longrightarrow>
            (\<forall>kept\<in>set rows. n_created_at n \<le> n_created_at kept))"
    using body left by blast
qed

theorem notifications_api_own_unread_witness:
  "notifications_api \<lparr>r_user = None, r_method = ''GET'', r_post = Map.empty\<rparr> notice_store =
     \<lparr>status = 401, body_notifications = [], body_error = Some ''User not authenticated''\<rparr> \<and>
   status (notifications_api \<lparr>r_user = Some ann, r_method = ''GET'', r_post = Map.empty\<rparr>
             notice_store) = 200 \<and>
   map nj_id (body_notifications
     (notifications_api \<lparr>r_user = Some ann, r_method = ''GET'', r_post = Map.empty\<rparr>
        notice_store)) = [4, 1]"
proof -
  have ids: "map nj_id (body_notifications
     (notifications_api \<lparr>r_user = Some ann, r_method = ''GET'', r_post = Map.empty\<rparr>
        notice_store)) = [4, 1]"
    by (simp add: notifications_api_def notice_store_def empty_store_def notice_def ann_def
        newest_first_def notification_entry_def)
  from notifications_api_own_unread
    [of "\<lparr>r_user = None, r_method = ''GET'', r_post = Map.empty\<rparr>" notice_store]
  have "notifications_api \<lparr>r_user = None, r_method = ''GET'', r_post = Map.empty\<rparr> notice_store =
     \<lparr>status = 401, body_notifications = [], body_error = Some ''User not authenticated''\<rparr>"
    by simp
  moreover from notifications_api_own_unread
    [of "\<lparr>r_user = Some ann, r_method = ''GET'', r_post = Map.empty\<rparr>" notice_store]
  have "status (notifications_api \<lparr>r_user = Some ann, r_method = ''GET'', r_post = Map.empty\<rparr>
             notice_store) = 200"
    by simp
  ultimately show ?thesis using ids by blast
qed

text \<open>
  C4. Whatever the store holds, the blog feed API returns the entries of
  \<open>min 5 n\<close> posts, \<open>n\<close> the number of published posts: every entry is that of a row with
  \<open>is_published\<close> true, the entries are in the order newest created first, and they are the
  newest published posts.
\<close>

theorem blog_feed_api_five_published_newest:
  "length (blog_feed_api storage_url s) = min 5 (length (filter bp_is_published (blog_posts s))) \<and>
   length (blog_feed_api storage_url s) \<le> 5 \<and>
   sorted_wrt (\<lambda>a b. bj_created_at b \<le> bj_created_at a) (blog_feed_api storage_url s) \<and>
   (\<exists>posts. blog_feed_api storage_url s = map (blog_entry storage_url) posts \<and>
      (\<forall>p\<in>set posts. p \<in> set (blog_posts s) \<and> bp_is_published p) \<and>
      (\<forall>p\<in>set (blog_posts s). bp_is_published p \<and> p \<notin> set posts \<longrightarrow>
         (\<forall>kept\<in>set posts. bp_created_at p \<le> bp_created_at kept)))"
proof -
  let ?pub = "filter bp_is_published (blog_posts s)"
  let ?posts = "take 5 (newest_first bp_created_at ?pub)"
  note facts = newest_first_take [of bp_created_at 5 ?pub]
  have feed: "blog_feed_api storage_url s = map (blog_entry storage_url) ?posts"
    by (simp add: blog_feed_api_def)
  have len: "length (blog_feed_api storage_url s) = min 5 (length ?pub)"
    unfolding feed using facts by simp
  have "sorted_wrt (\<lambda>a b. bp_created_at b \<le> bp_created_at a) ?posts"
    using facts by blast
  then have sorted: "sorted_wrt (\<lambda>a b. bj_created_at b \<le> bj_created_at a)
                       (blog_feed_api storage_url s)"
    unfolding feed by (simp add: sorted_wrt_map blog_entry_def)
  from facts have sub: "set ?posts \<subseteq> set ?pub" by blast
  then have rows: "\<forall>p\<in>set ?posts. p \<in> set (blog_posts s) \<and> bp_is_published p"
    by auto
  have left: "\<forall>p\<in>set (blog_posts s). bp_is_published p \<and> p \<notin> set ?posts \<longrightarrow>
         (\<forall>kept\<in>set ?posts. bp_created_at p \<le> bp_created_at kept)"
  proof (intro ballI impI)
    fix p kept
    assume "p \<in> set (blog_posts s)" and p: "bp_is_published p \<and> p \<notin> set ?posts"
      and kept: "kept \<in> set ?posts"
    then have "p \<in> set (take 5 (newest_first bp_created_at ?pub) @
                         drop 5 (newest_first bp_created_at ?pub))"
      by (simp add: newest_first_set)
    with p have "p \<in> set (drop 5 (newest_first bp_created_at ?pub))"
      unfolding set_append by blast
    with facts kept show "bp_created_at p \<le> bp_created_at kept" by blast
  qed
  from len have "length (blog_feed_api storage_url s) \<le> 5" by simp
  with len sorted feed rows left show ?thesis by blast
qed

theorem blog_feed_api_five_published_newest_witness:
  "map bj_slug (blog_feed_api (file_system_url ''/media/'') blog_store) =
     [''exam-nerves'', ''study-plans''] \<and>
   length (blog_feed_api (file_system_url ''/media/'') blog_store) \<le> 5 \<and>
   sorted_wrt (\<lambda>a b. bj_created_at b \<le> bj_created_at a)
     (blog_feed_api (file_system_url ''/media/'') blog_store)"
proof -
  have "map bj_slug (blog_feed_api (file_system_url ''/media/'') blog_store) =
     [''exam-nerves'', ''study-plans'']"
    by code_simp
  with blog_feed_api_five_published_newest [of "file_system_url ''/media/''" blog_store]
  show ?thesis by blast
qed

text \<open>
  C7, as stated, fails: the view hands out the URL of the storage backend as it is, and
  with the file system storage under \<open>/media/\<close> the entry of a post with an image carries
  a path, which names no scheme.
\<close>

theorem featured_image_counterexample:
  "map bj_featured_image (blog_feed_api (file_system_url ''/media/'') blog_store) =
     [None, Some ''/media/blog/a.png''] \<and>
   \<not> is_absolute_url ''/media/blog/a.png''"
  by code_simp

text \<open>
  C7, amended. Every entry of the blog feed API is that of a published post; its
  featured-image field is the URL the storage backend gives for the image when the post
  names one, and is empty otherwise. The field is an absolute resource locator whenever the
  storage backend gives absolute ones.
\<close>

theorem featured_image_is_storage_url:
  assumes "e \<in> set (blog_feed_api storage_url s)"
  shows "\<exists>post\<in>set (blog_posts s). bp_is_published post \<and> e = blog_entry storage_url post \<and>
           bj_featured_image e =
             (case bp_featured_image post of
                None \<Rightarrow> None
              | Some name \<Rightarrow> if name = [] then None else Some (storage_url name)) \<and>
           ((\<forall>name. is_absolute_url (storage_url name)) \<longrightarrow>
              (\<forall>url. bj_featured_image e = Some url \<longrightarrow> is_absolute_url url))"
proof -
  from assms obtain post
    where post: "post \<in> set (take 5 (newest_first bp_created_at
                                       (filter bp_is_published (blog_posts s))))"
      and e: "e = blog_entry storage_url post"
    by (auto simp: blog_feed_api_def)
  from post have "post \<in> set (newest_first bp_created_at (filter bp_is_published (blog_posts s)))"
    by (rule in_set_takeD)
  then have row: "post \<in> set (blog_posts s)" "bp_is_published post"
    by (simp_all add: newest_first_set)
  have image: "bj_featured_image e =
             (case bp_featured_image post of
                None \<Rightarrow> None
              | Some name \<Rightarrow> if name = [] then None else Some (storage_url name))"
    unfolding e by (simp add: blog_entry_def split: option.splits)
  then have "(\<forall>name. is_absolute_url (storage_url name)) \<longrightarrow>
              (\<forall>url. bj_featured_image e = Some url \<longrightarrow> is_absolute_url url)"
    by (auto split: option.splits if_splits)
  with row e image show ?thesis by blast
qed

theorem featured_image_is_storage_url_witness:
  "blog_entry (file_system_url ''https://cdn.example.org/media/'') post_a \<in>
     set (blog_feed_api (file_system_url ''https://cdn.example.org/media/'') blog_store) \<and>
   bj_featured_image (blog_entry (file_system_url ''https://cdn.example.org/media/'') post_a) =
     Some ''https://cdn.example.org/media/blog/a.png'' \<and>
   is_absolute_url ''https://cdn.example.org/media/blog/a.png''"
proof -
  let ?url = "file_system_url ''https://cdn.example.org/media/''"
  have member: "blog_entry ?url post_a \<in> set (blog_feed_api ?url blog_store)"
    by code_simp
  have image: "bj_featured_image (blog_entry ?url post_a) =
     Some ''https://cdn.example.org/media/blog/a.png''"
    by code_simp
  have "is_absolute_url ''https://cdn.example.org/media/blog/a.png''"
    by code_simp
  with featured_image_is_storage_url [OF member] image show ?thesis
    using member by blast
qed

section \<open>Write operations\<close>

lemma next_id_fresh: "Some (next_id pks) \<notin> set pks"
proof
  assume "Some (next_id pks) \<in> set pks"
  then have "next_id pks \<in> set (0 # map (\<lambda>pk. case pk of None \<Rightarrow> 0 | Some i \<Rightarrow> i) pks)"
    by force
  then have "next_id pks \<le> Max (set (0 # map (\<lambda>pk. case pk of None \<Rightarrow> 0 | Some i \<Rightarrow> i) pks))"
    by (intro Max_ge) simp_all
  also have "\<dots> = fold max (map (\<lambda>pk. case pk of None \<Rightarrow> 0 | Some i \<Rightarrow> i) pks) 0"
    by (rule Max.set_eq_fold)
  finally show False by (simp add: next_id_def)
qed

lemma found_row:
  assumes "get_object_or_404 qs slug = Inr q"
  shows "filter (\<lambda>row. fq_slug row = slug) qs = [q]" and "q \<in> set qs" and "fq_slug q = slug"
proof -
  from assms show only: "filter (\<lambda>row. fq_slug row = slug) qs = [q]"
    by (auto simp: get_object_or_404_def split: list.splits)
  then have "q \<in> set (filter (\<lambda>row. fq_slug row = slug) qs)" by simp
  then show "q \<in> set qs" and "fq_slug q = slug" by simp_all
qed

text \<open>A write to the rows of one primary key that keeps their slugs keeps the lookup by slug.\<close>

lemma found_after_write:
  assumes "get_object_or_404 qs slug = Inr q" and "\<And>row. fq_slug (f row) = fq_slug row"
  shows "get_object_or_404 (map (\<lambda>row. if fq_id row = fq_id q then f row else row) qs) slug =
           Inr (f q)"
proof -
  let ?g = "\<lambda>row. if fq_id row = fq_id q then f row else row"
  have "(\<lambda>row. fq_slug row = slug) \<circ> ?g = (\<lambda>row. fq_slug row = slug)"
    using assms(2) by (auto simp: fun_eq_iff)
  then have "filter (\<lambda>row. fq_slug row = slug) (map ?g qs) =
             map ?g (filter (\<lambda>row. fq_slug row = slug) qs)"
    by (simp add: filter_map)
  also have "\<dots> = [f q]"
    using found_row(1) [OF assms(1)] by simp
  finally show ?thesis by (simp add: get_object_or_404_def)
qed

lemma save_update_fields:
  assumes "fq_id q \<noteq> None" and "fq_id q \<in> set (map fq_id (forum_questions s))"
  shows "\<exists>q'. save q (Some fs) now s =
           Some (Inr (q', s\<lparr>forum_questions :=
              map (\<lambda>row. if fq_id row = fq_id q then write_fields fs q row else row)
                (forum_questions s)\<rparr>)) \<and>
           q' = (if fq_slug q = []
                 then q\<lparr>fq_slug := spec_slug (forum_questions s) (slugify (fq_title q))\<rparr> else q)"
proof -
  have "write_fields fs (q\<lparr>fq_slug := x\<rparr>) row = write_fields fs q row" for x row
    by (simp add: write_fields_def)
  with assms show ?thesis
    by (cases "fq_slug q = []") (auto simp: save_eq model_save_def Let_def)
qed

lemma rows_kept_refl: "rows_kept s s"
  by (simp add: rows_kept_def)

lemma rows_kept_trans:
  assumes "rows_kept s t" and "rows_kept t u"
  shows "rows_kept s u"
  unfolding rows_kept_def
proof (intro allI impI)
  fix i assume i: "i < length (forum_questions s)"
  with assms(1) have st: "i < length (forum_questions t)"
    "fq_id (forum_questions t ! i) = fq_id (forum_questions s ! i)"
    "fq_slug (forum_questions t ! i) = fq_slug (forum_questions s ! i)"
    "fq_is_answered (forum_questions s ! i) \<longrightarrow> fq_is_answered (forum_questions t ! i)"
    "fq_views (forum_questions s ! i) \<le> fq_views (forum_questions t ! i)"
    by (simp_all add: rows_kept_def)
  from assms(2) st(1) have tu: "i < length (forum_questions u)"
    "fq_id (forum_questions u ! i) = fq_id (forum_questions t ! i)"
    "fq_slug (forum_questions u ! i) = fq_slug (forum_questions t ! i)"
    "fq_is_answered (forum_questions t ! i) \<longrightarrow> fq_is_answered (forum_questions u ! i)"
    "fq_views (forum_questions t ! i) \<le> fq_views (forum_questions u ! i)"
    by (simp_all add: rows_kept_def)
  from st tu show "i < length (forum_questions u) \<and>
        fq_id (forum_questions u ! i) = fq_id (forum_questions s ! i) \<and>
        fq_slug (forum_questions u ! i) = fq_slug (forum_questions s ! i) \<and>
        (fq_is_answered (forum_questions s ! i) \<longrightarrow> fq_is_answered (forum_questions u ! i)) \<and>
        fq_views (forum_questions s ! i) \<le> fq_views (forum_questions u ! i)"
    by simp
qed

lemma rows_kept_answers:
  "rows_kept s (s\<lparr>forum_answers := as\<rparr>)"
  by (simp add: rows_kept_def)

lemma rows_kept_append:
  "rows_kept s (s\<lparr>forum_questions := forum_questions s @ [q]\<rparr>)"
  by (simp add: rows_kept_def nth_append)

text \<open>Rewriting the rows of the primary key of a stored row rewrites that row alone.\<close>

lemma rows_kept_write:
  assumes "store_ok s" and "q \<in> set (forum_questions s)"
    and "fq_id (f q) = fq_id q" and "fq_slug (f q) = fq_slug q"
    and "fq_is_answered q \<longrightarrow> fq_is_answered (f q)" and "fq_views q \<le> fq_views (f q)"
  shows "rows_kept s (s\<lparr>forum_questions :=
           map (\<lambda>row. if fq_id row = fq_id q then f row else row) (forum_questions s)\<rparr>)"
proof -
  have inj: "inj_on fq_id (set (forum_questions s))"
    using assms(1) by (simp add: store_ok_def distinct_map)
  have "row = q" if "row \<in> set (forum_questions s)" and "fq_id row = fq_id q" for row
    using inj that assms(2) by (auto dest: inj_onD)
  then have "forum_questions s ! i = q"
    if "i < length (forum_questions s)" and "fq_id (forum_questions s ! i) = fq_id q" for i
    using that by simp
  with assms(3-6) show ?thesis
    by (auto simp: rows_kept_def)
qed

lemma store_ok_write:
  assumes "store_ok s" and "\<And>row. fq_id (f row) = fq_id row"
  shows "store_ok (s\<lparr>forum_questions :=
           map (\<lambda>row. if fq_id row = fq_id q then f row else row) (forum_questions s)\<rparr>)"
proof -
  have "fq_id \<circ> (\<lambda>row. if fq_id row = fq_id q then f row else row) = fq_id"
    using assms(2) by (auto simp: fun_eq_iff)
  with assms(1) show ?thesis
    by (simp add: store_ok_def)
qed

lemma store_ok_answers: "store_ok s \<Longrightarrow> store_ok (s\<lparr>forum_answers := as\<rparr>)"
  by (simp add: store_ok_def)

lemma stored_pk:
  assumes "store_ok s" and "q \<in> set (forum_questions s)"
  shows "fq_id q \<noteq> None" and "fq_id q \<in> set (map fq_id (forum_questions s))"
proof -
  from assms(2) show stored: "fq_id q \<in> set (map fq_id (forum_questions s))"
    by simp
  from assms(1) have "None \<notin> set (map fq_id (forum_questions s))"
    by (simp add: store_ok_def)
  with stored show "fq_id q \<noteq> None"
    by metis
qed

lemma save_new:
  assumes "fq_slug q = []" and "fq_id q = None"
  shows "save q None now s =
    Some (Inr (q\<lparr>fq_slug := spec_slug (forum_questions s) (slugify (fq_title q)),
                   fq_id := Some (next_id (map fq_id (forum_questions s))),
                   fq_created_at := now, fq_updated_at := now\<rparr>,
               s\<lparr>forum_questions := forum_questions s @
                 [q\<lparr>fq_slug := spec_slug (forum_questions s) (slugify (fq_title q)),
                    fq_id := Some (next_id (map fq_id (forum_questions s))),
                    fq_created_at := now, fq_updated_at := now\<rparr>]\<rparr>))"
  using assms spec_slug_free [of "forum_questions s" "slugify (fq_title q)"]
  by (simp add: save_eq model_save_def Let_def)

lemma get_object_effect:
  assumes ok: "store_ok s"
  shows "\<exists>r s'. get_object slug now s = Some (r, s') \<and> store_ok s' \<and> rows_kept s s' \<and>
           (\<forall>q. get_object_or_404 (forum_questions s) slug = Inr q \<longrightarrow>
                get_object_or_404 (forum_questions s') slug =
                  Inr (q\<lparr>fq_views := fq_views q + 1\<rparr>))"
proof (cases "get_object_or_404 (forum_questions s) slug")
  case (Inl e)
  then have "get_object slug now s = Some (Inl e, s)"
    by (simp add: get_object_def)
  with ok Inl show ?thesis
    by (simp add: rows_kept_refl)
next
  case (Inr q)
  let ?f = "\<lambda>row. row\<lparr>fq_views := fq_views q + 1\<rparr>"
  let ?s' = "s\<lparr>forum_questions :=
               map (\<lambda>row. if fq_id row = fq_id q then ?f row else row) (forum_questions s)\<rparr>"
  from found_row [OF Inr] have q: "q \<in> set (forum_questions s)" by simp
  with ok have pk: "fq_id (?f q) \<noteq> None" "fq_id (?f q) \<in> set (map fq_id (forum_questions s))"
    using stored_pk [of s q] by simp_all
  have written: "write_fields [Views] (?f q) row = ?f row" for row
    by (simp add: write_fields_def)
  from save_update_fields [OF pk, of "[Views]" now]
  obtain q' where "save (?f q) (Some [Views]) now s = Some (Inr (q', ?s'))"
    by (auto simp: written)
  with Inr have run: "get_object slug now s = Some (Inr q', ?s')"
    by (simp add: get_object_def)
  have "store_ok ?s'"
    using ok by (rule store_ok_write) simp
  moreover have "rows_kept s ?s'"
    using ok q by (rule rows_kept_write) simp_all
  moreover have "get_object_or_404 (forum_questions ?s') slug = Inr (?f q)"
    using found_after_write [OF Inr, of ?f] by simp
  ultimately show ?thesis
    using run Inr by simp
qed

lemma form_valid_effect:
  assumes ok: "store_ok s"
  shows "\<exists>r msgs s'. form_valid usr title content cat now s = Some (r, msgs, s') \<and>
           store_ok s' \<and> rows_kept s s'"
proof -
  let ?q = "(form_instance title content cat)\<lparr>fq_author := u_id usr\<rparr>"
  have new: "fq_slug ?q = []" "fq_id ?q = None"
    by (simp_all add: form_instance_def)
  let ?q' = "?q\<lparr>fq_slug := spec_slug (forum_questions s) (slugify (fq_title ?q)),
                 fq_id := Some (next_id (map fq_id (forum_questions s))),
                 fq_created_at := now, fq_updated_at := now\<rparr>"
  let ?s' = "s\<lparr>forum_questions := forum_questions s @ [?q']\<rparr>"
  have "save ?q None now s = Some (Inr (?q', ?s'))"
    by (rule save_new [OF new])
  then have run: "form_valid usr title content cat now s =
      Some (redirect_forum_question (fq_slug ?q'),
            [Msg_success ''Your question has been posted successfully!''], ?s')"
    by (simp add: form_valid_def)
  have "store_ok ?s'"
    using ok next_id_fresh [of "map fq_id (forum_questions s)"]
    by (simp add: store_ok_def)
  moreover have "rows_kept s ?s'"
    by (rule rows_kept_append)
  ultimately show ?thesis
    using run by blast
qed

lemma post_answer_effect:
  assumes ok: "store_ok s"
  shows "\<exists>r msgs s'. post_answer req slug now s = Some (r, msgs, s') \<and>
           store_ok s' \<and> rows_kept s s' \<and>
           (\<forall>usr content q.
              r_user req = Some usr \<and> r_method req = ''POST'' \<and>
              ForumAnswerForm_clean (r_post req) = Some content \<and>
              get_object_or_404 (forum_questions s) slug = Inr q \<longrightarrow>
              r = redirect_forum_question slug \<and>
              get_object_or_404 (forum_questions s') slug = Inr (q\<lparr>fq_is_answered := True\<rparr>) \<and>
              forum_answers s' = forum_answers s @
                [\<lparr>fa_id = Some (next_id (map fa_id (forum_answers s))),
                  fa_question = fq_id q, fa_content = content, fa_author = u_id usr,
                  fa_is_accepted = False, fa_created_at = now, fa_updated_at = now\<rparr>])"
proof (cases "r_user req")
  case None
  then have "post_answer req slug now s =
      Some (Inr (Redirect ''login'' []),
            [Msg_error ''You must be logged in to post an answer.''], s)"
    by (simp add: post_answer_def)
  with ok None show ?thesis
    by (simp add: rows_kept_refl)
next
  case (Some usr)
  show ?thesis
  proof (cases "get_object_or_404 (forum_questions s) slug")
    case (Inl e)
    with Some have "post_answer req slug now s = Some (Inl e, [], s)"
      by (simp add: post_answer_def)
    with ok Inl show ?thesis
      by (simp add: rows_kept_refl)
  next
    case (Inr q)
    show ?thesis
    proof (cases "r_method req = ''POST''")
      case False
      with Some Inr have "post_answer req slug now s = Some (redirect_forum_question slug, [], s)"
        by (simp add: post_answer_def)
      with ok False show ?thesis
        by (simp add: rows_kept_refl)
    next
      case True
      show ?thesis
      proof (cases "ForumAnswerForm_clean (r_post req)")
        case None
        with Some Inr True have "post_answer req slug now s =
            Some (redirect_forum_question slug, [Msg_error ''Please correct the errors below.''], s)"
          by (simp add: post_answer_def)
        with ok None show ?thesis
          by (simp add: rows_kept_refl)
      next
        case valid: (Some content)
        let ?answer = "\<lparr>fa_id = Some (next_id (map fa_id (forum_answers s))),
                  fa_question = fq_id q, fa_content = content, fa_author = u_id usr,
                  fa_is_accepted = False, fa_created_at = now, fa_updated_at = now\<rparr>"
        let ?s1 = "s\<lparr>forum_answers := forum_answers s @ [?answer]\<rparr>"
        have ok1: "store_ok ?s1"
          using ok by (rule store_ok_answers)
        have kept1: "rows_kept s ?s1"
          by (rule rows_kept_answers)
        have rows1: "forum_questions ?s1 = forum_questions s"
          by simp
        show ?thesis
        proof (cases "fq_is_answered q")
          case True
          with Some Inr \<open>r_method req = ''POST''\<close> valid
          have run: "post_answer req slug now s =
              Some (redirect_forum_question slug, [Msg_success ''Your answer has been posted!''], ?s1)"
            by (simp add: post_answer_def)
          from True have "q\<lparr>fq_is_answered := True\<rparr> = q" by simp
          with run ok1 kept1 Some Inr valid show ?thesis
            by simp
        next
          case False
          let ?f = "\<lambda>row. row\<lparr>fq_is_answered := True\<rparr>"
          let ?s2 = "?s1\<lparr>forum_questions :=
               map (\<lambda>row. if fq_id row = fq_id q then ?f row else row) (forum_questions ?s1)\<rparr>"
          from found_row [OF Inr] have q: "q \<in> set (forum_questions ?s1)" by simp
          with ok1 have pk: "fq_id (?f q) \<noteq> None"
            "fq_id (?f q) \<in> set (map fq_id (forum_questions ?s1))"
            using stored_pk [of ?s1 q] by simp_all
          have written: "write_fields [Is_answered] (?f q) row = ?f row" for row
            by (simp add: write_fields_def)
          from save_update_fields [OF pk, of "[Is_answered]" now]
          obtain q' where "save (?f q) (Some [Is_answered]) now ?s1 = Some (Inr (q', ?s2))"
            by (auto simp: written)
          with Some Inr \<open>r_method req = ''POST''\<close> valid False
          have run: "post_answer req slug now s =
              Some (redirect_forum_question slug, [Msg_success ''Your answer has been posted!''], ?s2)"
            by (simp add: post_answer_def)
          have ok2: "store_ok ?s2"
            using ok1 by (rule store_ok_write) simp
          have "rows_kept ?s1 ?s2"
            using ok1 q by (rule rows_kept_write) simp_all
          with kept1 have kept2: "rows_kept s ?s2"
            by (rule rows_kept_trans)
          have found: "get_object_or_404 (forum_questions ?s2) slug = Inr (?f q)"
            using found_after_write [OF Inr, of ?f] by simp
          have answers: "forum_answers ?s2 = forum_answers s @ [?answer]"
            by simp
          from run ok2 kept2 found answers Some Inr valid show ?thesis
            by simp
        qed
      qed
    qed
  qed
qed

lemma step_effect:
  assumes "store_ok s"
  shows "\<exists>s'. step now s op = Some s' \<and> store_ok s' \<and> rows_kept s s'"
proof (cases op)
  case (Forum_question_detail slug)
  from get_object_effect [OF assms, of slug now] obtain r s'
    where "get_object slug now s = Some (r, s')" "store_ok s'" "rows_kept s s'"
    by blast
  with Forum_question_detail show ?thesis by simp
next
  case (Ask_question usr title content cat)
  from form_valid_effect [OF assms, of usr title content cat now] obtain r msgs s'
    where "form_valid usr title content cat now s = Some (r, msgs, s')" "store_ok s'" "rows_kept s s'"
    by blast
  with Ask_question show ?thesis by simp
next
  case (Post_answer req slug)
  from post_answer_effect [OF assms, of req slug now] obtain r msgs s'
    where "post_answer req slug now s = Some (r, msgs, s')" "store_ok s'" "rows_kept s s'"
    by blast
  with Post_answer show ?thesis by simp
next
  case Blog_feed_api
  with assms show ?thesis by (simp add: rows_kept_refl)
next
  case (Notifications_api req)
  with assms show ?thesis by (simp add: rows_kept_refl)
next
  case (Blog_post_detail slug)
  with assms show ?thesis by (simp add: rows_kept_refl)
qed

lemma run_effect:
  "store_ok s \<Longrightarrow> \<exists>s'. run now s ops = Some s' \<and> store_ok s' \<and> rows_kept s s'"
proof (induction ops arbitrary: now s)
  case Nil
  then show ?case by (simp add: rows_kept_refl)
next
  case (Cons op ops)
  from step_effect [OF Cons.prems, of now op] obtain s1
    where s1: "step now s op = Some s1" "store_ok s1" "rows_kept s s1"
    by blast
  from Cons.IH [OF s1(2), of "now + 1"] obtain s'
    where s': "run (now + 1) s1 ops = Some s'" "store_ok s'" "rows_kept s1 s'"
    by blast
  from s1(3) s'(3) have "rows_kept s s'" by (rule rows_kept_trans)
  with s1(1) s' show ?case by simp
qed

lemma store_ok_reachable: "run now empty_store ops = Some s \<Longrightarrow> store_ok s"
proof -
  assume reached: "run now empty_store ops = Some s"
  have "store_ok empty_store"
    by (simp add: store_ok_def empty_store_def)
  from run_effect [OF this, of now ops] reached show ?thesis
    by auto
qed

lemma detail_fetches:
  "store_ok s \<Longrightarrow> get_object_or_404 (forum_questions s) slug = Inr q \<Longrightarrow>
   \<exists>s'. run now s (replicate n (Forum_question_detail slug)) = Some s' \<and>
        get_object_or_404 (forum_questions s') slug = Inr (q\<lparr>fq_views := fq_views q + int n\<rparr>)"
proof (induction n arbitrary: now s q)
  case 0
  then show ?case by simp
next
  case (Suc n)
  from get_object_effect [OF Suc.prems(1), of slug now] Suc.prems(2) obtain r s1
    where s1: "get_object slug now s = Some (r, s1)" "store_ok s1"
      "get_object_or_404 (forum_questions s1) slug = Inr (q\<lparr>fq_views := fq_views q + 1\<rparr>)"
    by blast
  from Suc.IH [OF s1(2,3), of "now + 1"] obtain s'
    where s': "run (now + 1) s1 (replicate n (Forum_question_detail slug)) = Some s'"
      "get_object_or_404 (forum_questions s') slug =
         Inr (q\<lparr>fq_views := fq_views q + 1, fq_views := fq_views q + 1 + int n\<rparr>)"
    by auto
  have "q\<lparr>fq_views := fq_views q + 1, fq_views := fq_views q + 1 + int n\<rparr> =
        q\<lparr>fq_views := fq_views q + int (Suc n)\<rparr>"
    by simp
  with s1(1) s' show ?case by simp
qed

text \<open>
  C10. For a logged-in caller and the slug of a stored question, a request to the
  answer endpoint that is not a POST is answered by the redirect to the question's detail
  view, queues no message and leaves the store as it was: no answer row is added and no
  question row is written. (The URL pattern of the endpoint routes only the slugs that
  the slug converter accepts.)
\<close>

theorem non_post_answer_changes_nothing:
  assumes "r_user req = Some usr" and "r_method req \<noteq> ''POST''"
    and "get_object_or_404 (forum_questions s) slug = Inr question"
    and "slug_converter slug"
  shows "post_answer req slug now s = Some (Inr (Redirect ''forum_question'' [slug]), [], s)"
  using assms by (simp add: post_answer_def redirect_forum_question_def)

theorem non_post_answer_changes_nothing_witness:
  "r_user ann_get = Some ann \<and> r_method ann_get \<noteq> ''POST'' \<and>
   get_object_or_404 (forum_questions hello_store) ''hello-world-question'' = Inr hello_saved \<and>
   slug_converter ''hello-world-question'' \<and>
   post_answer ann_get ''hello-world-question'' 3 hello_store =
     Some (Inr (Redirect ''forum_question'' [''hello-world-question'']), [], hello_store)"
proof -
  have caller: "r_user ann_get = Some ann" and verb: "r_method ann_get \<noteq> ''POST''"
    by (simp_all add: ann_get_def)
  have found: "get_object_or_404 (forum_questions hello_store) ''hello-world-question'' =
      Inr hello_saved"
    by code_simp
  have routed: "slug_converter ''hello-world-question''"
    by code_simp
  from non_post_answer_changes_nothing [OF caller verb found routed, of 3]
  show ?thesis using caller verb found routed by simp
qed

text \<open>
  C5. In a store as the program keeps it, a valid answer posted by a logged-in caller to
  a stored question is added to the answers, and the question is answered afterwards: the
  flag goes from false to true at the first answer and stays true at a later one. No run
  of requests resets it: every question row keeps its place and its primary key, and a
  row that was answered before the run is answered after it. The requests are those that
  \<open>urls.py\<close> routes to the views of the forum, the blog and the JSON API; every run of
  them returns.
\<close>

theorem answered_flag_set_and_kept:
  "(store_ok s \<and> r_user req = Some usr \<and> r_method req = ''POST'' \<and>
    ForumAnswerForm_clean (r_post req) = Some content \<and>
    get_object_or_404 (forum_questions s) slug = Inr q \<longrightarrow>
      (\<exists>r msgs s'. post_answer req slug now s = Some (r, msgs, s') \<and>
         get_object_or_404 (forum_questions s') slug = Inr (q\<lparr>fq_is_answered := True\<rparr>) \<and>
         length (forum_answers s') = Suc (length (forum_answers s)))) \<and>
   (store_ok s \<longrightarrow>
      (\<exists>s'. run now s ops = Some s' \<and>
         (\<forall>i<length (forum_questions s).
            i < length (forum_questions s') \<and>
            fq_id (forum_questions s' ! i) = fq_id (forum_questions s ! i) \<and>
            (fq_is_answered (forum_questions s ! i) \<longrightarrow>
               fq_is_answered (forum_questions s' ! i)))))"
proof (intro conjI impI)
  assume posted: "store_ok s \<and> r_user req = Some usr \<and> r_method req = ''POST'' \<and>
    ForumAnswerForm_clean (r_post req) = Some content \<and>
    get_object_or_404 (forum_questions s) slug = Inr q"
  then have ok: "store_ok s" by simp
  from post_answer_effect [OF ok, of req slug now] posted obtain r msgs s'
    where "post_answer req slug now s = Some (r, msgs, s')"
      "get_object_or_404 (forum_questions s') slug = Inr (q\<lparr>fq_is_answered := True\<rparr>)"
      "forum_answers s' = forum_answers s @
         [\<lparr>fa_id = Some (next_id (map fa_id (forum_answers s))),
           fa_question = fq_id q, fa_content = content, fa_author = u_id usr,
           fa_is_accepted = False, fa_created_at = now, fa_updated_at = now\<rparr>]"
    by blast
  then show "\<exists>r msgs s'. post_answer req slug now s = Some (r, msgs, s') \<and>
         get_object_or_404 (forum_questions s') slug = Inr (q\<lparr>fq_is_answered := True\<rparr>) \<and>
         length (forum_answers s') = Suc (length (forum_answers s))"
    by simp
next
  assume ok: "store_ok s"
  from run_effect [OF ok, of now ops] obtain s'
    where "run now s ops = Some s'" "rows_kept s s'"
    by blast
  then show "\<exists>s'. run now s ops = Some s' \<and>
         (\<forall>i<length (forum_questions s).
            i < length (forum_questions s') \<and>
            fq_id (forum_questions s' ! i) = fq_id (forum_questions s ! i) \<and>
            (fq_is_answered (forum_questions s ! i) \<longrightarrow>
               fq_is_answered (forum_questions s' ! i)))"
    by (auto simp: rows_kept_def)
qed

theorem answered_flag_set_and_kept_witness:
  "store_ok hello_store \<and> \<not> fq_is_answered hello_saved \<and>
   (\<exists>r msgs s'. post_answer ann_post ''hello-world-question'' 3 hello_store = Some (r, msgs, s') \<and>
      get_object_or_404 (forum_questions s') ''hello-world-question'' =
        Inr (hello_saved\<lparr>fq_is_answered := True\<rparr>) \<and>
      length (forum_answers s') = Suc (length (forum_answers hello_store)))"
proof -
  have ok: "store_ok hello_store"
    by (simp add: store_ok_def hello_store_def hello_saved_def empty_store_def form_instance_def)
  have caller: "r_user ann_post = Some ann" and verb: "r_method ann_post = ''POST''"
    by (simp_all add: ann_post_def)
  have valid: "ForumAnswerForm_clean (r_post ann_post) = Some ''Read the syllabus first.''"
    by code_simp
  have found: "get_object_or_404 (forum_questions hello_store) ''hello-world-question'' =
      Inr hello_saved"
    by code_simp
  have fresh: "\<not> fq_is_answered hello_saved"
    by (simp add: hello_saved_def form_instance_def)
  from answered_flag_set_and_kept
    [of hello_store ann_post ann "''Read the syllabus first.''" "''hello-world-question''"
        hello_saved 3 "[]"]
    ok caller verb valid found
  have "\<exists>r msgs s'. post_answer ann_post ''hello-world-question'' 3 hello_store = Some (r, msgs, s') \<and>
      get_object_or_404 (forum_questions s') ''hello-world-question'' =
        Inr (hello_saved\<lparr>fq_is_answered := True\<rparr>) \<and>
      length (forum_answers s') = Suc (length (forum_answers hello_store))"
    by blast
  with ok fresh show ?thesis by blast
qed

text \<open>
  C6. In a store as the program keeps it, \<open>n\<close> fetches in a row of the detail view of a
  stored question return and leave its view count higher by exactly \<open>n\<close>: every request
  counts, whoever sends it. No run of requests lowers a view count: every question row
  keeps its place and its primary key, and its view count after the run is at least what
  it was before.
\<close>

theorem views_count_every_fetch:
  "(store_ok s \<and> get_object_or_404 (forum_questions s) slug = Inr q \<longrightarrow>
      (\<exists>s'. run now s (replicate n (Forum_question_detail slug)) = Some s' \<and>
         get_object_or_404 (forum_questions s') slug =
           Inr (q\<lparr>fq_views := fq_views q + int n\<rparr>))) \<and>
   (store_ok s \<longrightarrow>
      (\<exists>s'. run now s ops = Some s' \<and>
         (\<forall>i<length (forum_questions s).
            i < length (forum_questions s') \<and>
            fq_id (forum_questions s' ! i) = fq_id (forum_questions s ! i) \<and>
            fq_views (forum_questions s ! i) \<le> fq_views (forum_questions s' ! i))))"
proof (intro conjI impI)
  assume "store_ok s \<and> get_object_or_404 (forum_questions s) slug = Inr q"
  then show "\<exists>s'. run now s (replicate n (Forum_question_detail slug)) = Some s' \<and>
         get_object_or_404 (forum_questions s') slug =
           Inr (q\<lparr>fq_views := fq_views q + int n\<rparr>)"
    using detail_fetches [of s slug q now n] by blast
next
  assume ok: "store_ok s"
  from run_effect [OF ok, of now ops] obtain s'
    where "run now s ops = Some s'" "rows_kept s s'"
    by blast
  then show "\<exists>s'. run now s ops = Some s' \<and>
         (\<forall>i<length (forum_questions s).
            i < length (forum_questions s') \<and>
            fq_id (forum_questions s' ! i) = fq_id (forum_questions s ! i) \<and>
            fq_views (forum_questions s ! i) \<le> fq_views (forum_questions s' ! i))"
    by (auto simp: rows_kept_def)
qed

theorem views_count_every_fetch_witness:
  "store_ok hello_store \<and>
   get_object_or_404 (forum_questions hello_store) ''hello-world-question'' = Inr hello_saved \<and>
   (\<exists>s'. run 0 hello_store (replicate 3 (Forum_question_detail ''hello-world-question'')) = Some s' \<and>
      get_object_or_404 (forum_questions s') ''hello-world-question'' =
        Inr (hello_saved\<lparr>fq_views := 3\<rparr>))"
proof -
  have ok: "store_ok hello_store"
    by (simp add: store_ok_def hello_store_def hello_saved_def empty_store_def form_instance_def)
  have found: "get_object_or_404 (forum_questions hello_store) ''hello-world-question'' =
      Inr hello_saved"
    by code_simp
  have views: "fq_views hello_saved + int 3 = 3"
    by (simp add: hello_saved_def form_instance_def)
  from views_count_every_fetch [of hello_store "''hello-world-question''" hello_saved 0 3 "[]"]
    ok found
  have "\<exists>s'. run 0 hello_store (replicate 3 (Forum_question_detail ''hello-world-question'')) = Some s' \<and>
      get_object_or_404 (forum_questions s') ''hello-world-question'' =
        Inr (hello_saved\<lparr>fq_views := fq_views hello_saved + int 3\<rparr>)"
    by blast
  with ok found views show ?thesis by simp
qed

end
